theory Spec2Isabelle
  imports Main "HOL-Library.Word"
begin

section \<open>Memory promotion of box allocations (lib/SIL/Passes/MemoryPromotion.cpp)\<close>

text \<open>
  A shallow embedding of the memory-promotion pass: the aggregate flattener
  \<open>getNumElements\<close>, the use collector \<open>collectAllocationUses\<close>, the per-element
  escape seeding of \<open>ElementPromotion\<close>, its \<open>doIt\<close> and the driver
  \<open>performSILMemoryPromotion\<close>. C++ \<open>unsigned\<close> is \<open>32 word\<close>; a failed
  assertion or an out-of-range vector index is a value of type \<open>error\<close>.
\<close>

subsection \<open>Types of the host language\<close>

text \<open>
  Canonical types, as far as the pass looks at them: a tuple with the types of its fields,
  a struct with its member declarations (only a \<open>VarDecl\<close> is a stored field), an lvalue
  type (\<open>[byref]\<close>), and every other type.
\<close>

datatype CanType =
    TupleType "CanType list"
  | StructType string "Decl list"
  | LValueType CanType
  | OtherType string
and Decl =
    VarDecl CanType
  | OtherDecl

record SILType =
  getSwiftRValueType :: CanType
  isAddress :: bool

definition getObjectType :: "SILType \<Rightarrow> SILType" where
  "getObjectType T = T\<lparr>isAddress := False\<rparr>"

definition getAddressType :: "SILType \<Rightarrow> SILType" where
  "getAddressType T = T\<lparr>isAddress := True\<rparr>"

subsection \<open>Instructions, operands, modules\<close>

datatype ValueKind =
    AllocBoxInst | DeallocStackInst | RetainInst | ReleaseInst | DeallocRefInst
  | LoadInst | StoreInst | ApplyInst | PartialApplyInst | OtherInst

text \<open>
  A value is the instruction that defines it (by its address) and a result number; the
  address of a box is result 1 of its \<open>alloc_box\<close>.
\<close>

type_synonym SILValue = "nat \<times> nat"

text \<open>
  An instruction object: \<open>Addr\<close> is the pointer \<open>SILInstruction*\<close> (its identity),
  \<open>getParent\<close> the address of its basic block, \<open>getElementType\<close> is read on an
  \<open>alloc_box\<close> only. The operands of a store are the stored value (0) and the
  destination (1); those of a call are the callee (0) and the arguments (1 and up).
\<close>

record SILInstruction =
  Addr :: nat
  getKind :: ValueKind
  getAllOperands :: "SILValue list"
  getParent :: nat
  getElementType :: SILType

definition isa :: "ValueKind \<Rightarrow> SILInstruction \<Rightarrow> bool" where
  "isa K I = (getKind I = K)"

text \<open>\<open>FunctionInst\<close> is the common base class of \<open>apply\<close> and \<open>partial_apply\<close>.\<close>

definition isa_FunctionInst :: "SILInstruction \<Rightarrow> bool" where
  "isa_FunctionInst I = (getKind I = ApplyInst \<or> getKind I = PartialApplyInst)"

text \<open>An entry of a use list: the using instruction and the number of the operand.\<close>

record Operand =
  getUser :: SILInstruction
  getOperandNumber :: "32 word"

text \<open>
  What the signature of a callee answers: whether it returns indirectly, and the type of
  the argument at a position.
\<close>

record SILFunctionTypeInfo =
  hasIndirectReturn :: bool
  getSwiftArgumentType :: "32 word \<Rightarrow> CanType"

text \<open>
  Modelled from the spec: the diagnostic of section 7, of which the source has no
  declaration; it carries the address of the load it is attached to.
\<close>

datatype Diagnostic = DefiniteInitializationViolation nat

text \<open>
  The module: its functions, each a list of basic blocks, each a list of instructions; the
  two queries of the type system that the pass asks through the module
  (\<open>SILType::isAddressOnly(T, M)\<close>, and the function type information of the callee
  of a call, \<open>Apply->getOperand(0).getType().getFunctionTypeInfo(M)\<close>); and the
  diagnostics reported so far.
\<close>

record SILModule =
  Functions :: "SILInstruction list list list"
  isAddressOnly :: "CanType \<Rightarrow> bool"
  getFunctionTypeInfo :: "SILInstruction \<Rightarrow> SILFunctionTypeInfo"
  Diagnostics :: "Diagnostic list"

datatype error = AssertionFailure | IndexOutOfRange

subsection \<open>The use lists of the host representation\<close>

text \<open>
  Modelled from the spec: the use-list traversal of section 6 (\<open>UsesOf(Value)\<close>), which
  the source reads through \<open>getUses\<close> and \<open>use_empty\<close> and whose declaration is not
  part of the source. The uses of a value are the operands that name it, with the
  instruction that holds the operand and the number of the operand. They are listed in the
  order of the instructions; every statement below that takes a use list takes any. An
  instruction is without a use when no operand names one of its results.
\<close>

definition operandsOf :: "SILInstruction \<Rightarrow> SILValue \<Rightarrow> Operand list" where
  "operandsOf J V =
     map (\<lambda>k. \<lparr>getUser = J, getOperandNumber = of_nat k\<rparr>)
       (filter (\<lambda>k. getAllOperands J ! k = V) [0..<length (getAllOperands J)])"

definition getUses :: "SILModule \<Rightarrow> SILValue \<Rightarrow> Operand list" where
  "getUses M V = concat (map (\<lambda>J. operandsOf J V) (concat (concat (Functions M))))"

definition usedBy :: "SILInstruction \<Rightarrow> SILInstruction \<Rightarrow> bool" where
  "usedBy I J = list_ex (\<lambda>V. fst V = Addr I) (getAllOperands J)"

definition use_empty :: "SILModule \<Rightarrow> SILInstruction \<Rightarrow> bool" where
  "use_empty M I = (\<not> list_ex (list_ex (list_ex (usedBy I))) (Functions M))"

text \<open>
  Modelled from the spec: the mutation primitive erase-instruction of section 6. The
  instruction at index \<open>i\<close> leaves block \<open>b\<close> of function \<open>f\<close>.
\<close>

definition eraseFromParent :: "nat \<Rightarrow> nat \<Rightarrow> nat \<Rightarrow> SILModule \<Rightarrow> SILModule" where
  "eraseFromParent f b i M =
     M\<lparr>Functions := (Functions M)[f := (Functions M ! f)[b :=
          take i (Functions M ! f ! b) @ drop (Suc i) (Functions M ! f ! b)]]\<rparr>"

subsection \<open>isByRefOrIndirectReturn\<close>

text \<open>\<open>ArgTy->is<LValueType>()\<close>.\<close>

fun is_LValueType :: "CanType \<Rightarrow> bool" where
  "is_LValueType (LValueType T) = True"
| "is_LValueType (TupleType Fields) = False"
| "is_LValueType (StructType n Members) = False"
| "is_LValueType (OtherType n) = False"

definition isByRefOrIndirectReturn :: "SILModule \<Rightarrow> SILInstruction \<Rightarrow> 32 word \<Rightarrow> bool" where
  "isByRefOrIndirectReturn M Apply ArgumentNumber =
     (let FTI = getFunctionTypeInfo M Apply in
      if ArgumentNumber = 0 \<and> hasIndirectReturn FTI then True
      else is_LValueType (getSwiftArgumentType FTI ArgumentNumber))"

subsection \<open>Element uses and getNumElements\<close>

datatype UseKind = Load | Store | ByrefUse | Escape

type_synonym ElementUses = "(SILInstruction \<times> UseKind) list"

fun getNumElements :: "SILModule \<Rightarrow> CanType \<Rightarrow> 32 word" where
  "getNumElements M (TupleType Fields) =
     foldl (\<lambda>NumElements Elt. NumElements + getNumElements M Elt) 0 Fields"
| "getNumElements M (StructType n Members) =
     (if isAddressOnly M (StructType n Members) then 1
      else foldl (\<lambda>NumElements D.
                    case D of VarDecl T \<Rightarrow> NumElements + getNumElements M T
                            | OtherDecl \<Rightarrow> NumElements) 0 Members)"
| "getNumElements M (LValueType T) = 1"
| "getNumElements M (OtherType n) = 1"

subsection \<open>ElementPromotion\<close>

datatype EscapeKind = Unknown | Yes | No

record LiveOutBlockState =
  EscapeInfo :: EscapeKind

record ElementPromotion =
  TheAllocBox :: SILInstruction
  Uses :: ElementUses
  PerBlockInfo :: "nat \<rightharpoonup> LiveOutBlockState"
  HasAnyEscape :: bool

text \<open>
  \<open>PerBlockInfo[BB]\<close> of a dense map: the entry of the block, default-constructed
  (\<open>EscapeInfo = Unknown\<close>) when the block has none.
\<close>

definition lookupOrDefault :: "(nat \<rightharpoonup> LiveOutBlockState) \<Rightarrow> nat \<Rightarrow> LiveOutBlockState" where
  "lookupOrDefault PBI BB = (case PBI BB of None \<Rightarrow> \<lparr>EscapeInfo = Unknown\<rparr> | Some S \<Rightarrow> S)"

text \<open>
  The constructor clears the map it is given, then marks the block of every Escape use.
\<close>

definition ElementPromotion_ctor ::
  "SILInstruction \<Rightarrow> ElementUses \<Rightarrow> (nat \<rightharpoonup> LiveOutBlockState) \<Rightarrow> ElementPromotion" where
  "ElementPromotion_ctor ABI Us PBI =
     fold (\<lambda>Use EP.
             if snd Use = Escape
             then EP\<lparr>HasAnyEscape := True,
                     PerBlockInfo := (PerBlockInfo EP)(getParent (fst Use) \<mapsto>
                        (lookupOrDefault (PerBlockInfo EP) (getParent (fst Use)))
                          \<lparr>EscapeInfo := Yes\<rparr>)\<rparr>
             else EP)
          Us
          \<lparr>TheAllocBox = ABI, Uses = Us, PerBlockInfo = Map.empty, HasAnyEscape = False\<rparr>"

text \<open>
  \<open>doIt\<close> works through the uses; every case of its switch is empty, so each use hands
  the module on as it got it.
\<close>

definition doIt :: "ElementPromotion \<Rightarrow> SILModule \<Rightarrow> SILModule" where
  "doIt EP M =
     fold (\<lambda>Use M. case snd Use of
                      Load \<Rightarrow> M
                    | Store \<Rightarrow> M
                    | ByrefUse \<Rightarrow> M
                    | Escape \<Rightarrow> M)
          (Uses EP) M"

subsection \<open>The use collector\<close>

text \<open>
  The loop of \<open>addElementUses\<close>: \<open>for (i = 0; i != e; ++i) Uses[BaseElt+i].push_back(..)\<close>,
  with \<open>i\<close>, \<open>e\<close> and \<open>BaseElt\<close> unsigned; indexing the vector past its size is an error.
\<close>

function addElementUses_loop ::
  "ElementUses list \<Rightarrow> 32 word \<Rightarrow> SILInstruction \<Rightarrow> UseKind \<Rightarrow> 32 word \<Rightarrow> 32 word
     \<Rightarrow> error + ElementUses list" where
  "addElementUses_loop Us BaseElt User Kind i e =
     (if i \<noteq> e then
        (if unat (BaseElt + i) < length Us
         then addElementUses_loop
                (Us[unat (BaseElt + i) := Us ! unat (BaseElt + i) @ [(User, Kind)]])
                BaseElt User Kind (i + 1) e
         else Inl IndexOutOfRange)
      else Inr Us)"
  by pat_completeness auto
termination
proof (relation "measure (\<lambda>(Us, BaseElt, User, Kind, i, e). unat (e - i))")
  show "wf (measure (\<lambda>(Us, BaseElt, User, Kind, i, e). unat (e - i)))"
    by simp
next
  fix Us :: "ElementUses list" and BaseElt :: "32 word" and User :: SILInstruction
    and Kind :: UseKind and i e :: "32 word"
  assume ne: "i \<noteq> e"
  have nz: "e - i \<noteq> 0" using ne by simp
  have "e - (i + 1) = (e - i) - 1" by simp
  then have "unat (e - (i + 1)) = unat (e - i) - 1"
    using unat_minus_one [OF nz] by (simp only:)
  moreover have "0 < unat (e - i)" using nz by (simp add: unat_gt_0)
  ultimately have "unat (e - (i + 1)) < unat (e - i)" by simp
  then show "((Us[unat (BaseElt + i) := Us ! unat (BaseElt + i) @ [(User, Kind)]],
               BaseElt, User, Kind, i + 1, e), (Us, BaseElt, User, Kind, i, e))
             \<in> measure (\<lambda>(Us, BaseElt, User, Kind, i, e). unat (e - i))"
    by simp
qed

definition addElementUses ::
  "SILModule \<Rightarrow> ElementUses list \<Rightarrow> 32 word \<Rightarrow> SILType \<Rightarrow> SILInstruction \<Rightarrow> UseKind
     \<Rightarrow> error + ElementUses list" where
  "addElementUses M Us BaseElt UseTy User Kind =
     addElementUses_loop Us BaseElt User Kind 0 (getNumElements M (getSwiftRValueType UseTy))"

text \<open>One turn of the loop of \<open>collectAllocationUses\<close>, for the use \<open>UI\<close>.\<close>

definition collectUse ::
  "SILModule \<Rightarrow> SILType \<Rightarrow> ElementUses list \<Rightarrow> 32 word \<Rightarrow> Operand
     \<Rightarrow> error + ElementUses list" where
  "collectUse M PointeeType Us BaseElt UI =
     (let User = getUser UI in
      if isa DeallocStackInst User \<or> isa RetainInst User \<or>
         isa ReleaseInst User \<or> isa DeallocRefInst User
      then Inr Us
      else if isa LoadInst User
      then addElementUses M Us BaseElt PointeeType User Load
      else if isa StoreInst User \<and> getOperandNumber UI = 1
      then addElementUses M Us BaseElt PointeeType User Store
      else if isa_FunctionInst User \<and> isByRefOrIndirectReturn M User (getOperandNumber UI - 1)
      then addElementUses M Us BaseElt PointeeType User ByrefUse
      else addElementUses M Us BaseElt PointeeType User Escape)"

fun collectUses_loop ::
  "SILModule \<Rightarrow> SILType \<Rightarrow> Operand list \<Rightarrow> ElementUses list \<Rightarrow> 32 word
     \<Rightarrow> error + ElementUses list" where
  "collectUses_loop M PointeeType [] Us BaseElt = Inr Us"
| "collectUses_loop M PointeeType (UI # UIs) Us BaseElt =
     (case collectUse M PointeeType Us BaseElt UI of
        Inl err \<Rightarrow> Inl err
      | Inr Us' \<Rightarrow> collectUses_loop M PointeeType UIs Us' BaseElt)"

text \<open>
  \<open>collectAllocationUses\<close>: \<open>PointerType\<close> and \<open>PointerUses\<close> are the type and the use
  list of the pointer it is given.
\<close>

definition collectAllocationUses ::
  "SILModule \<Rightarrow> SILType \<Rightarrow> Operand list \<Rightarrow> ElementUses list \<Rightarrow> 32 word
     \<Rightarrow> error + ElementUses list" where
  "collectAllocationUses M PointerType PointerUses Us BaseElt =
     (if \<not> isAddress PointerType then Inl AssertionFailure
      else collectUses_loop M (getObjectType PointerType) PointerUses Us BaseElt)"

subsection \<open>optimizeAllocBox and the driver\<close>

text \<open>
  The pointer walked is \<open>SILValue(ABI, 1)\<close>, of the address type of the element type of
  the box. The block map is one object, handed to the constructor of each element in turn.
\<close>

definition optimizeAllocBox :: "SILInstruction \<Rightarrow> SILModule \<Rightarrow> error + SILModule" where
  "optimizeAllocBox ABI M =
     (case collectAllocationUses M (getAddressType (getElementType ABI))
             (getUses M (Addr ABI, 1))
             (replicate (unat (getNumElements M (getSwiftRValueType (getElementType ABI)))) [])
             0 of
        Inl err \<Rightarrow> Inl err
      | Inr Us \<Rightarrow>
          Inr (snd (fold (\<lambda>Elt (PBI, M').
                            let EP = ElementPromotion_ctor ABI Elt PBI
                            in (PerBlockInfo EP, doIt EP M'))
                         Us (Map.empty, M))))"

text \<open>
  The instructions of block \<open>b\<close> of function \<open>f\<close>; the driver only ever names a
  block that exists.
\<close>

definition blockAt :: "SILModule \<Rightarrow> nat \<Rightarrow> nat \<Rightarrow> SILInstruction list" where
  "blockAt M f b =
     (if f < length (Functions M) \<and> b < length (Functions M ! f)
      then Functions M ! f ! b else [])"

text \<open>
  The loop over one block, with the iterator \<open>I\<close> as the index \<open>i\<close> into block \<open>b\<close> of
  function \<open>f\<close>: after an erasure the next instruction stands at the same index.
\<close>

function scanBlock :: "nat \<Rightarrow> nat \<Rightarrow> nat \<Rightarrow> SILModule \<Rightarrow> error + SILModule" where
  "scanBlock f b i M =
     (if i < length (blockAt M f b) then
        (if \<not> isa AllocBoxInst (blockAt M f b ! i) then scanBlock f b (i + 1) M
         else (case optimizeAllocBox (blockAt M f b ! i) M of
                 Inl err \<Rightarrow> Inl err
               | Inr M' \<Rightarrow>
                   if use_empty M' (blockAt M f b ! i)
                   then scanBlock f b i (eraseFromParent f b i M')
                   else scanBlock f b (i + 1) M'))
      else Inr M)"
  by pat_completeness auto
termination
proof (relation "measure (\<lambda>(f, b, i, M). length (blockAt M f b) - i)")
  have doIt_id: "doIt EP N = N" for EP N
  proof -
    have "fold (\<lambda>Use M. case snd Use of Load \<Rightarrow> M | Store \<Rightarrow> M | ByrefUse \<Rightarrow> M | Escape \<Rightarrow> M)
            Us N = N" for Us :: ElementUses
      by (induction Us) (simp_all split: UseKind.splits)
    then show ?thesis by (simp add: doIt_def)
  qed
  have elements: "snd (fold (\<lambda>Elt (PBI, M').
                            let EP = ElementPromotion_ctor ABI Elt PBI
                            in (PerBlockInfo EP, doIt EP M')) Us (P, N)) = N" for ABI Us P N
    by (induction Us arbitrary: P) (simp_all add: doIt_id Let_def)
  have same: "M' = M" if "optimizeAllocBox ABI M = Inr M'" for ABI M M'
    using that by (simp add: optimizeAllocBox_def elements split: sum.splits)
  show "wf (measure (\<lambda>(f, b, i, M). length (blockAt M f b) - i))"
    by simp
  show "((f, b, i + 1, M), (f, b, i, M)) \<in> measure (\<lambda>(f, b, i, M). length (blockAt M f b) - i)"
    if "i < length (blockAt M f b)" for f b i M
    using that by simp
  show "((f, b, i, eraseFromParent f b i M'), (f, b, i, M))
          \<in> measure (\<lambda>(f, b, i, M). length (blockAt M f b) - i)"
    if "i < length (blockAt M f b)" and "optimizeAllocBox (blockAt M f b ! i) M = Inr M'"
    for f b i M M'
  proof -
    have M': "M' = M" using that(2) by (rule same)
    have "f < length (Functions M) \<and> b < length (Functions M ! f)"
      using that(1) by (simp add: blockAt_def split: if_splits)
    then have "length (blockAt (eraseFromParent f b i M) f b) = length (blockAt M f b) - 1"
      using that(1) by (simp add: blockAt_def eraseFromParent_def)
    then show ?thesis using that(1) M' by simp
  qed
  show "((f, b, i + 1, M'), (f, b, i, M)) \<in> measure (\<lambda>(f, b, i, M). length (blockAt M f b) - i)"
    if "i < length (blockAt M f b)" and "optimizeAllocBox (blockAt M f b ! i) M = Inr M'"
    for f b i M M'
  proof -
    have "M' = M" using that(2) by (rule same)
    then show ?thesis using that(1) by simp
  qed
qed

text \<open>A range-for whose body may fail: the first failure ends the loop.\<close>

fun forEach ::
  "nat list \<Rightarrow> (nat \<Rightarrow> SILModule \<Rightarrow> error + SILModule) \<Rightarrow> SILModule \<Rightarrow> error + SILModule" where
  "forEach [] body M = Inr M"
| "forEach (k # ks) body M =
     (case body k M of Inl err \<Rightarrow> Inl err | Inr M' \<Rightarrow> forEach ks body M')"

definition performSILMemoryPromotion :: "SILModule \<Rightarrow> error + SILModule" where
  "performSILMemoryPromotion M =
     forEach [0..<length (Functions M)]
       (\<lambda>f M1. forEach [0..<length (Functions M1 ! f)] (\<lambda>b M2. scanBlock f b 0 M2) M1) M"

subsection \<open>Notions of the specification\<close>

text \<open>The types of the stored fields among the members of a struct, in declaration order.\<close>

fun storedFieldTypes :: "Decl list \<Rightarrow> CanType list" where
  "storedFieldTypes [] = []"
| "storedFieldTypes (VarDecl T # Ds) = T # storedFieldTypes Ds"
| "storedFieldTypes (OtherDecl # Ds) = storedFieldTypes Ds"

text \<open>
  The number of leaves of a type as a natural number, by the rules of section 4.1 of the
  specification: what \<open>getNumElements\<close> counts, without the bound of \<open>unsigned\<close>.
\<close>

fun leafCount :: "SILModule \<Rightarrow> CanType \<Rightarrow> nat" where
  "leafCount M (TupleType Fields) = sum_list (map (leafCount M) Fields)"
| "leafCount M (StructType n Members) =
     (if isAddressOnly M (StructType n Members) then 1
      else sum_list (map (\<lambda>D. case D of VarDecl T \<Rightarrow> leafCount M T | OtherDecl \<Rightarrow> 0) Members))"
| "leafCount M (LValueType T) = 1"
| "leafCount M (OtherType n) = 1"

text \<open>
  A type has a leaf when flattening it reaches a type that is not taken apart: one that is
  neither a tuple nor a struct, or a struct of opaque layout.
\<close>

fun hasLeaf :: "SILModule \<Rightarrow> CanType \<Rightarrow> bool" where
  "hasLeaf M (TupleType Fields) = list_ex (hasLeaf M) Fields"
| "hasLeaf M (StructType n Members) =
     (isAddressOnly M (StructType n Members) \<or>
      list_ex (\<lambda>D. case D of VarDecl T \<Rightarrow> hasLeaf M T | OtherDecl \<Rightarrow> False) Members)"
| "hasLeaf M (LValueType T) = True"
| "hasLeaf M (OtherType n) = True"

text \<open>
  The bookkeeping instructions of section 4.2, rule 1: stack deallocation, reference-count
  increment and decrement, raw-reference deallocation.
\<close>

definition isBookkeeping :: "SILInstruction \<Rightarrow> bool" where
  "isBookkeeping I =
     (getKind I = DeallocStackInst \<or> getKind I = RetainInst \<or>
      getKind I = ReleaseInst \<or> getKind I = DeallocRefInst)"

text \<open>
  The classification of one use by the rules of section 4.2 of the specification, in
  their order of priority; \<open>None\<close> is an ignored use.
\<close>

definition spec_UseKind :: "SILModule \<Rightarrow> Operand \<Rightarrow> UseKind option" where
  "spec_UseKind M UI =
     (if isBookkeeping (getUser UI) then None
      else if getKind (getUser UI) = LoadInst then Some Load
      else if getKind (getUser UI) = StoreInst \<and> getOperandNumber UI = 1 then Some Store
      else if (getKind (getUser UI) = ApplyInst \<or> getKind (getUser UI) = PartialApplyInst) \<and>
              ((getOperandNumber UI - 1 = 0 \<and>
                  hasIndirectReturn (getFunctionTypeInfo M (getUser UI))) \<or>
               is_LValueType (getSwiftArgumentType (getFunctionTypeInfo M (getUser UI))
                                (getOperandNumber UI - 1)))
      then Some ByrefUse
      else Some Escape)"

text \<open>The entries one use adds to the bucket of an element it spans.\<close>

definition spec_entries :: "SILModule \<Rightarrow> Operand \<Rightarrow> ElementUses" where
  "spec_entries M UI =
     (case spec_UseKind M UI of None \<Rightarrow> [] | Some K \<Rightarrow> [(getUser UI, K)])"

text \<open>
  The taint of a block as the map records it: \<open>EscapeInfo = Yes\<close>.
\<close>

definition isTainted :: "(nat \<rightharpoonup> LiveOutBlockState) \<Rightarrow> nat \<Rightarrow> bool" where
  "isTainted PBI BB = (EscapeInfo (lookupOrDefault PBI BB) = Yes)"

text \<open>
  The taint of section 4.3 of the specification, over the control-flow edges of the
  function: a block is tainted when it is reachable, in zero or more steps, from the
  block of an Escape use. A block that is reachable at all is reachable by a path that
  takes no edge twice, so paths of as many steps as there are edges are enough.
\<close>

fun spec_reachableWithin :: "(nat \<times> nat) list \<Rightarrow> nat \<Rightarrow> nat \<Rightarrow> nat \<Rightarrow> bool" where
  "spec_reachableWithin Edges 0 A B = (A = B)"
| "spec_reachableWithin Edges (Suc n) A B =
     (A = B \<or> list_ex (\<lambda>E. fst E = A \<and> spec_reachableWithin Edges n (snd E) B) Edges)"

definition spec_reachable :: "(nat \<times> nat) list \<Rightarrow> nat \<Rightarrow> nat \<Rightarrow> bool" where
  "spec_reachable Edges A B = spec_reachableWithin Edges (length Edges) A B"

definition spec_Tainted :: "(nat \<times> nat) list \<Rightarrow> ElementUses \<Rightarrow> nat \<Rightarrow> bool" where
  "spec_Tainted Edges Us BB =
     list_ex (\<lambda>Use. snd Use = Escape \<and> spec_reachable Edges (getParent (fst Use)) BB) Us"

text \<open>
  Well-formed modules: an \<open>alloc_box\<close> has no operands. The instructions the driver
  erases: a box allocation without a use.
\<close>

definition wellFormed :: "SILModule \<Rightarrow> bool" where
  "wellFormed M =
     list_all (list_all (list_all (\<lambda>J. isa AllocBoxInst J \<longrightarrow> getAllOperands J = [])))
       (Functions M)"

definition erasable :: "SILModule \<Rightarrow> SILInstruction \<Rightarrow> bool" where
  "erasable M I = (isa AllocBoxInst I \<and> use_empty M I)"

definition prune :: "SILModule \<Rightarrow> SILInstruction list \<Rightarrow> SILInstruction list" where
  "prune M = filter (\<lambda>I. \<not> erasable M I)"

text \<open>A block from which some instructions without operands have been taken out.\<close>

definition thinned :: "SILInstruction list \<Rightarrow> SILInstruction list \<Rightarrow> bool" where
  "thinned B' B = (set B' \<subseteq> set B \<and> (\<forall>J\<in>set B. J \<notin> set B' \<longrightarrow> getAllOperands J = []))"

definition setBlock :: "nat \<Rightarrow> nat \<Rightarrow> SILInstruction list \<Rightarrow> SILModule \<Rightarrow> SILModule" where
  "setBlock f b B M = M\<lparr>Functions := (Functions M)[f := (Functions M ! f)[b := B]]\<rparr>"

subsection \<open>Example inputs\<close>

definition IntTy :: CanType where
  "IntTy = OtherType ''Int''"

definition noCalleeInfo :: SILFunctionTypeInfo where
  "noCalleeInfo = \<lparr>hasIndirectReturn = False, getSwiftArgumentType = (\<lambda>n. IntTy)\<rparr>"

text \<open>A module without functions, in which the struct \<open>Opaque\<close> alone is address-only.\<close>

definition emptyModule :: SILModule where
  "emptyModule =
     \<lparr>Functions = [],
      isAddressOnly = (\<lambda>T. case T of StructType n Ms \<Rightarrow> n = ''Opaque'' | _ \<Rightarrow> False),
      getFunctionTypeInfo = (\<lambda>I. noCalleeInfo),
      Diagnostics = []\<rparr>"

text \<open>The tuple of sixteen fields of one type.\<close>

definition tuple16 :: "CanType \<Rightarrow> CanType" where
  "tuple16 T = TupleType (replicate 16 T)"

text \<open>An instruction of block \<open>p\<close>; its element type, read on a box only, is \<open>Int\<close>.\<close>

definition inst :: "nat \<Rightarrow> ValueKind \<Rightarrow> SILValue list \<Rightarrow> nat \<Rightarrow> SILInstruction" where
  "inst a k ops p =
     \<lparr>Addr = a, getKind = k, getAllOperands = ops, getParent = p,
      getElementType = \<lparr>getSwiftRValueType = IntTy, isAddress = False\<rparr>\<rparr>"

text \<open>
  A box of an \<open>Int\<close>, a store of the value \<open>(9, 0)\<close> to its address, a load from its
  address, and a box that nothing uses.
\<close>

definition boxA :: SILInstruction where
  "boxA = inst 1 AllocBoxInst [] 0"

definition storeA :: SILInstruction where
  "storeA = inst 2 StoreInst [(9, 0), (1, 1)] 0"

definition loadA :: SILInstruction where
  "loadA = inst 3 LoadInst [(1, 1)] 0"

definition boxD :: SILInstruction where
  "boxD = inst 4 AllocBoxInst [] 0"

text \<open>One function of one block: the box, the store, then the load.\<close>

definition storeLoadModule :: SILModule where
  "storeLoadModule = emptyModule\<lparr>Functions := [[[boxA, storeA, loadA]]]\<rparr>"

text \<open>One function of one block: the box, then a load that no store precedes.\<close>

definition loadOnlyModule :: SILModule where
  "loadOnlyModule = emptyModule\<lparr>Functions := [[[boxA, loadA]]]\<rparr>"

text \<open>As \<open>storeLoadModule\<close>, with the unused box in front.\<close>

definition deadBoxModule :: SILModule where
  "deadBoxModule = emptyModule\<lparr>Functions := [[[boxD, boxA, storeA, loadA]]]\<rparr>"

text \<open>
  A box of a pair of \<open>Int\<close>, and uses of its address: a release, a store of the address
  itself (operand 0), and three calls. The callee of \<open>callRet\<close> returns indirectly, the
  parameter 1 of the callee of \<open>callRef\<close> is by reference, the callee of \<open>callCapture\<close>
  has neither.
\<close>

definition boxP :: SILInstruction where
  "boxP = (inst 1 AllocBoxInst [] 0)
            \<lparr>getElementType := \<lparr>getSwiftRValueType = TupleType [IntTy, IntTy], isAddress = False\<rparr>\<rparr>"

definition releaseP :: SILInstruction where
  "releaseP = inst 10 ReleaseInst [(1, 1)] 0"

definition storeOfP :: SILInstruction where
  "storeOfP = inst 11 StoreInst [(1, 1), (8, 0)] 0"

definition callRet :: SILInstruction where
  "callRet = inst 5 ApplyInst [(7, 0), (1, 1)] 0"

definition callRef :: SILInstruction where
  "callRef = inst 6 PartialApplyInst [(7, 0), (9, 0), (1, 1)] 0"

definition callCapture :: SILInstruction where
  "callCapture = inst 12 ApplyInst [(7, 0), (1, 1)] 1"

definition callModule :: SILModule where
  "callModule = emptyModule
     \<lparr>getFunctionTypeInfo := (\<lambda>I.
        if Addr I = 5 then \<lparr>hasIndirectReturn = True, getSwiftArgumentType = (\<lambda>n. IntTy)\<rparr>
        else if Addr I = 6
        then \<lparr>hasIndirectReturn = False,
              getSwiftArgumentType = (\<lambda>n. if n = 1 then LValueType IntTy else IntTy)\<rparr>
        else noCalleeInfo)\<rparr>"

text \<open>A call in block 0 that captures the address of the box.\<close>

definition escapeB0 :: SILInstruction where
  "escapeB0 = inst 12 ApplyInst [(7, 0), (1, 1)] 0"

definition usesOfP :: "Operand list" where
  "usesOfP =
     [\<lparr>getUser = releaseP, getOperandNumber = 0\<rparr>,
      \<lparr>getUser = loadA, getOperandNumber = 0\<rparr>,
      \<lparr>getUser = storeA, getOperandNumber = 1\<rparr>,
      \<lparr>getUser = storeOfP, getOperandNumber = 0\<rparr>,
      \<lparr>getUser = callRet, getOperandNumber = 1\<rparr>,
      \<lparr>getUser = callRef, getOperandNumber = 2\<rparr>,
      \<lparr>getUser = callCapture, getOperandNumber = 1\<rparr>]"

section \<open>The aggregate flattener\<close>

lemma foldl_add_word:
  "foldl (\<lambda>n x. n + f x) a xs = a + sum_list (map f xs)" for a :: "32 word"
  by (induction xs arbitrary: a) (simp_all add: add.assoc)

lemma foldl_members_word:
  "foldl (\<lambda>n D. case D of VarDecl T \<Rightarrow> n + f T | OtherDecl \<Rightarrow> n) a Ds
     = a + sum_list (map f (storedFieldTypes Ds))" for a :: "32 word"
  by (induction Ds arbitrary: a rule: storedFieldTypes.induct) (simp_all add: add.assoc)

lemma sum_members_nat:
  "sum_list (map (\<lambda>D. case D of VarDecl T \<Rightarrow> f T | OtherDecl \<Rightarrow> 0) Ds)
     = sum_list (map f (storedFieldTypes Ds))" for f :: "CanType \<Rightarrow> nat"
  by (induction Ds rule: storedFieldTypes.induct) simp_all

lemma set_storedFieldTypes: "T \<in> set (storedFieldTypes Ds) \<longleftrightarrow> VarDecl T \<in> set Ds"
  by (induction Ds rule: storedFieldTypes.induct) auto

lemma of_nat_sum_list_word:
  "(of_nat (sum_list (map f xs)) :: 32 word) = sum_list (map (\<lambda>x. of_nat (f x)) xs)"
  by (induction xs) simp_all

lemma sum_list_pos_iff:
  "0 < sum_list (map f xs) \<longleftrightarrow> (\<exists>x\<in>set xs. 0 < f x)" for f :: "'a \<Rightarrow> nat"
  by (induction xs) auto

lemma getNumElements_tuple:
  "getNumElements M (TupleType Fields) = sum_list (map (getNumElements M) Fields)"
  by (simp add: foldl_add_word)

lemma getNumElements_struct:
  "getNumElements M (StructType n Members) =
     (if isAddressOnly M (StructType n Members) then 1
      else sum_list (map (getNumElements M) (storedFieldTypes Members)))"
  by (simp add: foldl_members_word)

text \<open>The count depends on the module through its layout query only.\<close>

lemma getNumElements_cong:
  "isAddressOnly M' = isAddressOnly M \<Longrightarrow> getNumElements M' T = getNumElements M T"
proof (induction M T rule: getNumElements.induct)
  case (1 M Fields)
  have "sum_list (map (getNumElements M') Fields) = sum_list (map (getNumElements M) Fields)"
    by (rule arg_cong [where f = sum_list], rule map_cong) (simp_all add: 1)
  then show ?case by (simp only: getNumElements_tuple)
next
  case (2 M n Members)
  show ?case
  proof (cases "isAddressOnly M (StructType n Members)")
    case True
    then show ?thesis using 2(2) by simp
  next
    case False
    have "sum_list (map (getNumElements M') (storedFieldTypes Members))
        = sum_list (map (getNumElements M) (storedFieldTypes Members))"
      by (rule arg_cong [where f = sum_list], rule map_cong)
         (simp_all add: 2 False set_storedFieldTypes)
    then show ?thesis using False 2(2) by (simp only: getNumElements_struct)
  qed
qed simp_all

text \<open>The result is the number of leaves, cut to 32 bits.\<close>

lemma getNumElements_leafCount: "getNumElements M T = of_nat (leafCount M T)"
proof (induction M T rule: getNumElements.induct)
  case (1 M Fields)
  have "sum_list (map (getNumElements M) Fields)
      = sum_list (map (\<lambda>x. of_nat (leafCount M x)) Fields)"
    by (rule arg_cong [where f = sum_list], rule map_cong) (simp_all add: 1)
  then show ?case
    by (simp only: getNumElements_tuple leafCount.simps of_nat_sum_list_word)
next
  case (2 M n Members)
  show ?case
  proof (cases "isAddressOnly M (StructType n Members)")
    case True
    then show ?thesis by simp
  next
    case False
    have "sum_list (map (getNumElements M) (storedFieldTypes Members))
        = sum_list (map (\<lambda>x. of_nat (leafCount M x)) (storedFieldTypes Members))"
      by (rule arg_cong [where f = sum_list], rule map_cong)
         (simp_all add: 2 False set_storedFieldTypes)
    with False show ?thesis
      by (simp only: getNumElements_struct leafCount.simps sum_members_nat
            of_nat_sum_list_word if_False)
  qed
qed simp_all

lemma unat_getNumElements:
  "leafCount M T < 2 ^ 32 \<Longrightarrow> unat (getNumElements M T) = leafCount M T"
  by (rule of_nat_inverse) (simp_all add: getNumElements_leafCount)

lemma hasLeaf_leafCount: "hasLeaf M T \<longleftrightarrow> 0 < leafCount M T"
proof (induction M T rule: leafCount.induct)
  case (1 M Fields)
  then show ?case by (simp add: list_ex_iff sum_list_pos_iff del: sum_list_eq_0_iff)
next
  case (2 M n Members)
  have "list_ex (\<lambda>D. case D of VarDecl T \<Rightarrow> hasLeaf M T | OtherDecl \<Rightarrow> False) Members
      = (\<exists>D\<in>set Members. 0 < (case D of VarDecl T \<Rightarrow> leafCount M T | OtherDecl \<Rightarrow> 0))"
    if "\<not> isAddressOnly M (StructType n Members)"
    unfolding list_ex_iff using 2 that by (intro bex_cong refl) (auto split: Decl.splits)
  then show ?case
    by (cases "isAddressOnly M (StructType n Members)")
       (simp_all add: sum_list_pos_iff del: sum_list_eq_0_iff)
qed simp_all

text \<open>
  A tuple of sixteen fields of one type has sixteen times its leaves; eight levels of
  such tuples over \<open>Int\<close> have \<open>2 ^ 32\<close> leaves, which \<open>unsigned\<close> counts as 0.
\<close>

lemma getNumElements_tuple16:
  "getNumElements M (tuple16 T) = 16 * getNumElements M T"
  unfolding tuple16_def
  by (simp only: getNumElements_tuple map_replicate sum_list_replicate) simp

lemma hasLeaf_tuple16: "hasLeaf M (tuple16 T) = hasLeaf M T"
  by (simp add: tuple16_def list_ex_iff)

lemma getNumElements_wraps:
  "hasLeaf M (tuple16 (tuple16 (tuple16 (tuple16 (tuple16 (tuple16 (tuple16 (tuple16 IntTy))))))))
   \<and> getNumElements M
       (tuple16 (tuple16 (tuple16 (tuple16 (tuple16 (tuple16 (tuple16 (tuple16 IntTy)))))))) = 0"
  by (simp add: getNumElements_tuple16 hasLeaf_tuple16 IntTy_def)

text \<open>
  C4. The claim: for every well-formed value type the element count is at least 1. The
  empty tuple is a well-formed type, it has no field to sum over, and its count is 0.
\<close>

theorem getNumElements_empty_tuple_counterexample:
  "\<not> 1 \<le> getNumElements emptyModule (TupleType [])"
  by simp

text \<open>
  C4, as amended: the element count is at least 1 for every type that has a leaf and
  fewer than \<open>2 ^ 32\<close> leaves; it is then the number of leaves.
\<close>

theorem getNumElements_ge_1:
  assumes "hasLeaf M T" and "leafCount M T < 2 ^ 32"
  shows "1 \<le> getNumElements M T \<and> unat (getNumElements M T) = leafCount M T"
proof -
  have eq: "unat (getNumElements M T) = leafCount M T"
    using assms(2) by (rule unat_getNumElements)
  moreover have "0 < leafCount M T"
    using assms(1) by (simp add: hasLeaf_leafCount)
  ultimately have "1 \<le> unat (getNumElements M T)" by simp
  then have "1 \<le> getNumElements M T" by (simp add: word_le_nat_alt)
  with eq show ?thesis by simp
qed

theorem getNumElements_ge_1_witness:
  "hasLeaf emptyModule (TupleType [IntTy, TupleType [IntTy, IntTy]])
   \<and> leafCount emptyModule (TupleType [IntTy, TupleType [IntTy, IntTy]]) < 2 ^ 32
   \<and> 1 \<le> getNumElements emptyModule (TupleType [IntTy, TupleType [IntTy, IntTy]])
   \<and> unat (getNumElements emptyModule (TupleType [IntTy, TupleType [IntTy, IntTy]])) = 3"
proof -
  have h: "hasLeaf emptyModule (TupleType [IntTy, TupleType [IntTy, IntTy]])"
    by (simp add: IntTy_def)
  have l: "leafCount emptyModule (TupleType [IntTy, TupleType [IntTy, IntTy]]) = 3"
    by (simp add: IntTy_def)
  show ?thesis
    using getNumElements_ge_1 [of emptyModule "TupleType [IntTy, TupleType [IntTy, IntTy]]"] h l
    by simp
qed

text \<open>
  C5. The element count is a function of the type and of the layout query alone, so that
  computing it again gives the same value, whatever else of the module has changed; a
  tuple yields the sum of the counts of its field types in order, a struct of inspectable
  layout the sum over its stored fields, a struct of opaque layout 1, and every other
  type 1. The sums are those of the result type \<open>unsigned\<close>.
\<close>

theorem getNumElements_rules:
  "(isAddressOnly M' = isAddressOnly M \<longrightarrow> getNumElements M' T = getNumElements M T)
   \<and> getNumElements M (TupleType Fields) = sum_list (map (getNumElements M) Fields)
   \<and> (\<not> isAddressOnly M (StructType n Members) \<longrightarrow>
        getNumElements M (StructType n Members)
          = sum_list (map (getNumElements M) (storedFieldTypes Members)))
   \<and> (isAddressOnly M (StructType n Members) \<longrightarrow> getNumElements M (StructType n Members) = 1)
   \<and> ((\<forall>Fs. T \<noteq> TupleType Fs) \<and> (\<forall>m Ms. T \<noteq> StructType m Ms) \<longrightarrow> getNumElements M T = 1)"
proof -
  have other: "getNumElements M T = 1"
    if "\<forall>Fs. T \<noteq> TupleType Fs" and "\<forall>m Ms. T \<noteq> StructType m Ms"
    using that by (cases T) simp_all
  have same: "isAddressOnly M' = isAddressOnly M \<longrightarrow> getNumElements M' T = getNumElements M T"
    by (rule impI) (rule getNumElements_cong)
  have tuple: "getNumElements M (TupleType Fields) = sum_list (map (getNumElements M) Fields)"
    by (rule getNumElements_tuple)
  have struct: "\<not> isAddressOnly M (StructType n Members) \<longrightarrow>
      getNumElements M (StructType n Members)
        = sum_list (map (getNumElements M) (storedFieldTypes Members))"
    by (simp only: getNumElements_struct) simp
  have opaque: "isAddressOnly M (StructType n Members) \<longrightarrow>
      getNumElements M (StructType n Members) = 1"
    by simp
  from same tuple struct opaque other show ?thesis by blast
qed

theorem getNumElements_rules_witness:
  "getNumElements (emptyModule\<lparr>Diagnostics := [DefiniteInitializationViolation 0]\<rparr>) IntTy
     = getNumElements emptyModule IntTy
   \<and> getNumElements emptyModule (TupleType [IntTy, TupleType [IntTy, IntTy]]) = 3
   \<and> getNumElements emptyModule (StructType ''Point'' [VarDecl IntTy, OtherDecl, VarDecl IntTy]) = 2
   \<and> getNumElements emptyModule (StructType ''Opaque'' [VarDecl IntTy, VarDecl IntTy]) = 1
   \<and> getNumElements emptyModule IntTy = 1"
  using getNumElements_rules [of "emptyModule\<lparr>Diagnostics := [DefiniteInitializationViolation 0]\<rparr>"
      emptyModule IntTy "[IntTy, TupleType [IntTy, IntTy]]" "''Point''"
      "[VarDecl IntTy, OtherDecl, VarDecl IntTy]"]
    getNumElements_rules [of emptyModule emptyModule IntTy "[]" "''Opaque''"
      "[VarDecl IntTy, VarDecl IntTy]"]
  by (simp add: emptyModule_def IntTy_def)

section \<open>The use collector\<close>

declare addElementUses_loop.simps [simp del]
declare scanBlock.simps [simp del]

text \<open>
  In \<open>optimizeAllocBox\<close> the bucket array has one bucket per element of the box, the base
  element is 0 and every use touches the whole pointee type: the loop of
  \<open>addElementUses\<close> then stays in range and appends the entry to every bucket.
\<close>

lemma addElementUses_loop_aligned:
  "length Us = unat e \<Longrightarrow> unat i \<le> unat e \<Longrightarrow>
   addElementUses_loop Us 0 User Kind i e
     = Inr (take (unat i) Us @ map (\<lambda>U. U @ [(User, Kind)]) (drop (unat i) Us))"
proof (induction Us "0 :: 32 word" User Kind i e rule: addElementUses_loop.induct)
  case (1 Us User Kind i e)
  show ?case
  proof (cases "i = e")
    case True
    then show ?thesis using 1(2) by (simp add: addElementUses_loop.simps [of Us 0 User Kind e e])
  next
    case False
    have lt: "unat i < unat e"
      using False 1(3) by (simp add: word_unat_eq_iff)
    then have lt': "unat i < length Us" using 1(2) by simp
    have "unat e < 2 ^ 32"
      using unsigned_less [of e, where 'a = nat] by simp
    then have "unat i + 1 < 2 ^ 32"
      using lt by simp
    then have suc: "unat (i + 1) = Suc (unat i)"
      by (simp add: unat_add_lem [THEN iffD1])
    let ?Us' = "Us[unat i := Us ! unat i @ [(User, Kind)]]"
    have IH: "addElementUses_loop ?Us' 0 User Kind (i + 1) e
        = Inr (take (unat (i + 1)) ?Us' @ map (\<lambda>U. U @ [(User, Kind)]) (drop (unat (i + 1)) ?Us'))"
      using 1(1) False lt' 1(2) lt suc by simp
    have "take (Suc (unat i)) ?Us' = take (unat i) Us @ [Us ! unat i @ [(User, Kind)]]"
      using lt' by (simp add: take_Suc_conv_app_nth)
    moreover have "drop (Suc (unat i)) ?Us' = drop (Suc (unat i)) Us"
      by simp
    moreover have "drop (unat i) Us = Us ! unat i # drop (Suc (unat i)) Us"
      using lt' by (simp add: Cons_nth_drop_Suc)
    ultimately show ?thesis
      using False lt' IH suc
      by (simp add: addElementUses_loop.simps [of Us 0 User Kind i e])
  qed
qed

lemma addElementUses_aligned:
  "length Us = unat (getNumElements M (getSwiftRValueType UseTy)) \<Longrightarrow>
   addElementUses M Us 0 UseTy User Kind = Inr (map (\<lambda>U. U @ [(User, Kind)]) Us)"
  by (simp add: addElementUses_def addElementUses_loop_aligned)

lemma collectUse_aligned:
  assumes "length Us = unat (getNumElements M (getSwiftRValueType PointeeType))"
  shows "collectUse M PointeeType Us 0 UI = Inr (map (\<lambda>U. U @ spec_entries M UI) Us)"
  using assms
  by (simp add: collectUse_def Let_def addElementUses_aligned spec_entries_def spec_UseKind_def
      isa_def isa_FunctionInst_def isBookkeeping_def isByRefOrIndirectReturn_def)

lemma collectUses_loop_aligned:
  "length Us = unat (getNumElements M (getSwiftRValueType PointeeType)) \<Longrightarrow>
   collectUses_loop M PointeeType UIs Us 0
     = Inr (map (\<lambda>U. U @ concat (map (spec_entries M) UIs)) Us)"
proof (induction UIs arbitrary: Us)
  case Nil
  then show ?case by simp
next
  case (Cons UI UIs)
  then show ?case by (simp add: collectUse_aligned o_def)
qed

lemma collectAllocationUses_aligned:
  "isAddress PointerType \<Longrightarrow>
   collectAllocationUses M PointerType UIs
       (replicate (unat (getNumElements M (getSwiftRValueType PointerType))) []) 0
     = Inr (replicate (unat (getNumElements M (getSwiftRValueType PointerType)))
              (concat (map (spec_entries M) UIs)))"
  by (simp add: collectAllocationUses_def collectUses_loop_aligned getObjectType_def)

lemma spec_entries_not_bookkeeping:
  "(I, K) \<in> set (concat (map (spec_entries M) UIs)) \<Longrightarrow> \<not> isBookkeeping I"
  by (induction UIs) (auto simp: spec_entries_def spec_UseKind_def split: if_splits)

lemma length_spec_entries:
  "length (concat (map (spec_entries M) UIs))
     = length (filter (\<lambda>UI. \<not> isBookkeeping (getUser UI)) UIs)"
  by (induction UIs) (simp_all add: spec_entries_def spec_UseKind_def)

lemma spec_entries_stores:
  "filter (\<lambda>(I, K). isa StoreInst I) (concat (map (spec_entries M) UIs))
     = map (\<lambda>UI. (getUser UI, if getOperandNumber UI = 1 then Store else Escape))
         (filter (\<lambda>UI. isa StoreInst (getUser UI)) UIs)"
  by (induction UIs) (simp_all add: spec_entries_def spec_UseKind_def isa_def isBookkeeping_def)

lemma spec_entries_calls:
  "filter (\<lambda>(I, K). isa_FunctionInst I) (concat (map (spec_entries M) UIs))
     = map (\<lambda>UI. (getUser UI,
              if (getOperandNumber UI - 1 = 0 \<and>
                    hasIndirectReturn (getFunctionTypeInfo M (getUser UI))) \<or>
                 is_LValueType (getSwiftArgumentType (getFunctionTypeInfo M (getUser UI))
                                  (getOperandNumber UI - 1))
              then ByrefUse else Escape))
         (filter (\<lambda>UI. isa_FunctionInst (getUser UI)) UIs)"
  by (induction UIs)
     (auto simp add: spec_entries_def spec_UseKind_def isa_FunctionInst_def isBookkeeping_def)

lemma collect_box:
  "collectAllocationUses M (getAddressType (getElementType ABI)) UIs
       (replicate (unat (getNumElements M (getSwiftRValueType (getElementType ABI)))) []) 0
     = Inr (replicate (unat (getNumElements M (getSwiftRValueType (getElementType ABI))))
              (concat (map (spec_entries M) UIs)))"
  using collectAllocationUses_aligned [of "getAddressType (getElementType ABI)" M UIs]
  by (simp add: getAddressType_def)

text \<open>Unfolding the example inputs.\<close>

lemmas example_defs = emptyModule_def IntTy_def noCalleeInfo_def inst_def boxA_def storeA_def
  loadA_def boxD_def boxP_def releaseP_def storeOfP_def callRet_def callRef_def callCapture_def
  callModule_def usesOfP_def storeLoadModule_def loadOnlyModule_def deadBoxModule_def

lemma kinds [simp]:
  "getKind boxA = AllocBoxInst" "getKind storeA = StoreInst" "getKind loadA = LoadInst"
  "getKind boxD = AllocBoxInst" "getKind boxP = AllocBoxInst" "getKind releaseP = ReleaseInst"
  "getKind storeOfP = StoreInst" "getKind callRet = ApplyInst"
  "getKind callRef = PartialApplyInst" "getKind callCapture = ApplyInst"
  by (simp_all add: example_defs)

lemma boxP_count:
  "unat (getNumElements callModule (getSwiftRValueType (getElementType boxP))) = 2"
  by (simp add: example_defs getNumElements_tuple)

text \<open>
  C6. For every box allocation and every use list of its address, the collector returns,
  no bucket holds an entry for a stack deallocation, a retain, a release or a raw-reference
  deallocation, and the number of entries over all buckets is the sum, over the other
  entries of the use list, of the element count of the pointee type the use touches.
\<close>

theorem collect_accounting:
  "\<exists>B. collectAllocationUses M (getAddressType (getElementType ABI)) UIs
           (replicate (unat (getNumElements M (getSwiftRValueType (getElementType ABI)))) []) 0
         = Inr B
     \<and> (\<forall>U\<in>set B. \<forall>(I, K)\<in>set U. \<not> isBookkeeping I)
     \<and> sum_list (map length B)
         = sum_list (map (\<lambda>UI. unat (getNumElements M (getSwiftRValueType
                               (getObjectType (getAddressType (getElementType ABI))))))
                      (filter (\<lambda>UI. \<not> isBookkeeping (getUser UI)) UIs))"
proof -
  let ?N = "unat (getNumElements M (getSwiftRValueType (getElementType ABI)))"
  let ?E = "concat (map (spec_entries M) UIs)"
  have "\<forall>U\<in>set (replicate ?N ?E). \<forall>(I, K)\<in>set U. \<not> isBookkeeping I"
    using spec_entries_not_bookkeeping [of _ _ M UIs] by auto
  moreover have "sum_list (map length (replicate ?N ?E))
      = sum_list (map (\<lambda>UI. unat (getNumElements M (getSwiftRValueType
                               (getObjectType (getAddressType (getElementType ABI))))))
                      (filter (\<lambda>UI. \<not> isBookkeeping (getUser UI)) UIs))"
    by (simp add: sum_list_replicate length_spec_entries getObjectType_def getAddressType_def
        sum_list_triv)
  ultimately show ?thesis
    using collect_box [of M ABI UIs] by blast
qed

theorem collect_accounting_witness:
  "\<exists>B. collectAllocationUses callModule (getAddressType (getElementType boxP)) usesOfP
          (replicate 2 []) 0 = Inr B
       \<and> sum_list (map length B) = 12
       \<and> releaseP \<notin> fst ` set (concat B)"
proof -
  obtain B where B:
    "collectAllocationUses callModule (getAddressType (getElementType boxP)) usesOfP
       (replicate (unat (getNumElements callModule (getSwiftRValueType (getElementType boxP)))) [])
       0 = Inr B"
    "\<forall>U\<in>set B. \<forall>(I, K)\<in>set U. \<not> isBookkeeping I"
    "sum_list (map length B)
       = sum_list (map (\<lambda>UI. unat (getNumElements callModule (getSwiftRValueType
                               (getObjectType (getAddressType (getElementType boxP))))))
                    (filter (\<lambda>UI. \<not> isBookkeeping (getUser UI)) usesOfP))"
    using collect_accounting [of callModule boxP usesOfP] by blast
  have T: "getSwiftRValueType (getObjectType (getAddressType (getElementType boxP)))
      = getSwiftRValueType (getElementType boxP)"
    by (simp add: getObjectType_def getAddressType_def)
  have "filter (\<lambda>UI. \<not> isBookkeeping (getUser UI)) usesOfP = tl usesOfP"
    by (simp add: usesOfP_def isBookkeeping_def)
  then have "sum_list (map length B) = 12"
    using B(3) by (simp add: T boxP_count usesOfP_def)
  moreover have "isBookkeeping releaseP"
    by (simp add: isBookkeeping_def)
  then have "releaseP \<notin> fst ` set (concat B)"
    using B(2) by fastforce
  ultimately show ?thesis using B(1) by (simp add: boxP_count)
qed

text \<open>
  C7. For every box allocation and every use list of its address, the bucket of every
  element holds, for the stores of the use list in their order, one entry each: of kind
  Store when the address is operand 1 of the store (its destination), of kind Escape
  otherwise (the address is the value stored).
\<close>

theorem collect_stores:
  "\<exists>B. collectAllocationUses M (getAddressType (getElementType ABI)) UIs
           (replicate (unat (getNumElements M (getSwiftRValueType (getElementType ABI)))) []) 0
         = Inr B
     \<and> length B = unat (getNumElements M (getSwiftRValueType (getElementType ABI)))
     \<and> (\<forall>i < length B.
          filter (\<lambda>(I, K). isa StoreInst I) (B ! i)
            = map (\<lambda>UI. (getUser UI, if getOperandNumber UI = 1 then Store else Escape))
                (filter (\<lambda>UI. isa StoreInst (getUser UI)) UIs))"
  using collect_box [of M ABI UIs] by (simp add: spec_entries_stores)

theorem collect_stores_witness:
  "\<exists>B. collectAllocationUses callModule (getAddressType (getElementType boxP)) usesOfP
          (replicate 2 []) 0 = Inr B
       \<and> filter (\<lambda>(I, K). isa StoreInst I) (B ! 0) = [(storeA, Store), (storeOfP, Escape)]
       \<and> filter (\<lambda>(I, K). isa StoreInst I) (B ! 1) = [(storeA, Store), (storeOfP, Escape)]"
proof -
  obtain B where B:
    "collectAllocationUses callModule (getAddressType (getElementType boxP)) usesOfP
       (replicate (unat (getNumElements callModule (getSwiftRValueType (getElementType boxP)))) [])
       0 = Inr B"
    "length B = unat (getNumElements callModule (getSwiftRValueType (getElementType boxP)))"
    "\<forall>i < length B.
       filter (\<lambda>(I, K). isa StoreInst I) (B ! i)
         = map (\<lambda>UI. (getUser UI, if getOperandNumber UI = 1 then Store else Escape))
             (filter (\<lambda>UI. isa StoreInst (getUser UI)) usesOfP)"
    using collect_stores [of callModule boxP usesOfP] by blast
  have R: "map (\<lambda>UI. (getUser UI, if getOperandNumber UI = 1 then Store else Escape))
             (filter (\<lambda>UI. isa StoreInst (getUser UI)) usesOfP)
           = [(storeA, Store), (storeOfP, Escape)]"
    by (simp add: usesOfP_def isa_def)
  from B R show ?thesis by (simp add: boxP_count)
qed

text \<open>
  C8. For every box allocation and every use list of its address, the bucket of every
  element holds, for the calls (\<open>apply\<close> and \<open>partial_apply\<close>) of the use list in their
  order, one entry each: of kind ByrefUse when the argument position (the operand number
  less one) is 0 and the callee returns indirectly, or the argument type at that position
  is an lvalue type; of kind Escape otherwise.
\<close>

theorem collect_calls:
  "\<exists>B. collectAllocationUses M (getAddressType (getElementType ABI)) UIs
           (replicate (unat (getNumElements M (getSwiftRValueType (getElementType ABI)))) []) 0
         = Inr B
     \<and> length B = unat (getNumElements M (getSwiftRValueType (getElementType ABI)))
     \<and> (\<forall>i < length B.
          filter (\<lambda>(I, K). isa_FunctionInst I) (B ! i)
            = map (\<lambda>UI. (getUser UI,
                if (getOperandNumber UI - 1 = 0 \<and>
                      hasIndirectReturn (getFunctionTypeInfo M (getUser UI))) \<or>
                   is_LValueType (getSwiftArgumentType (getFunctionTypeInfo M (getUser UI))
                                    (getOperandNumber UI - 1))
                then ByrefUse else Escape))
                (filter (\<lambda>UI. isa_FunctionInst (getUser UI)) UIs))"
  using collect_box [of M ABI UIs] by (simp add: spec_entries_calls)

theorem collect_calls_witness:
  "\<exists>B. collectAllocationUses callModule (getAddressType (getElementType boxP)) usesOfP
          (replicate 2 []) 0 = Inr B
       \<and> filter (\<lambda>(I, K). isa_FunctionInst I) (B ! 0)
           = [(callRet, ByrefUse), (callRef, ByrefUse), (callCapture, Escape)]
       \<and> filter (\<lambda>(I, K). isa_FunctionInst I) (B ! 1)
           = [(callRet, ByrefUse), (callRef, ByrefUse), (callCapture, Escape)]"
proof -
  obtain B where B:
    "collectAllocationUses callModule (getAddressType (getElementType boxP)) usesOfP
       (replicate (unat (getNumElements callModule (getSwiftRValueType (getElementType boxP)))) [])
       0 = Inr B"
    "length B = unat (getNumElements callModule (getSwiftRValueType (getElementType boxP)))"
    "\<forall>i < length B.
       filter (\<lambda>(I, K). isa_FunctionInst I) (B ! i)
         = map (\<lambda>UI. (getUser UI,
                if (getOperandNumber UI - 1 = 0 \<and>
                      hasIndirectReturn (getFunctionTypeInfo callModule (getUser UI))) \<or>
                   is_LValueType (getSwiftArgumentType (getFunctionTypeInfo callModule (getUser UI))
                                    (getOperandNumber UI - 1))
                then ByrefUse else Escape))
             (filter (\<lambda>UI. isa_FunctionInst (getUser UI)) usesOfP)"
    using collect_calls [of callModule boxP usesOfP] by blast
  have R: "map (\<lambda>UI. (getUser UI,
                if (getOperandNumber UI - 1 = 0 \<and>
                      hasIndirectReturn (getFunctionTypeInfo callModule (getUser UI))) \<or>
                   is_LValueType (getSwiftArgumentType (getFunctionTypeInfo callModule (getUser UI))
                                    (getOperandNumber UI - 1))
                then ByrefUse else Escape))
             (filter (\<lambda>UI. isa_FunctionInst (getUser UI)) usesOfP)
           = [(callRet, ByrefUse), (callRef, ByrefUse), (callCapture, Escape)]"
    by (simp add: usesOfP_def isa_FunctionInst_def)
       (simp add: callModule_def callRet_def callRef_def callCapture_def inst_def
          noCalleeInfo_def IntTy_def)
  from B R show ?thesis by (simp add: boxP_count)
qed

section \<open>The escape seeding of ElementPromotion\<close>

lemma LiveOutBlockState_Yes:
  "(S :: LiveOutBlockState)\<lparr>EscapeInfo := Yes\<rparr> = \<lparr>EscapeInfo = Yes\<rparr>"
  by (cases S) simp

lemma seed_fold_PerBlockInfo:
  "PerBlockInfo
     (fold (\<lambda>Use EP.
             if snd Use = Escape
             then EP\<lparr>HasAnyEscape := True,
                     PerBlockInfo := (PerBlockInfo EP)(getParent (fst Use) \<mapsto>
                        (lookupOrDefault (PerBlockInfo EP) (getParent (fst Use)))
                          \<lparr>EscapeInfo := Yes\<rparr>)\<rparr>
             else EP) Us EP0) BB
   = (if \<exists>I. (I, Escape) \<in> set Us \<and> getParent I = BB
      then Some \<lparr>EscapeInfo = Yes\<rparr> else PerBlockInfo EP0 BB)"
proof (induction Us arbitrary: EP0)
  case Nil
  then show ?case by simp
next
  case (Cons Use Us)
  obtain I K where Use: "Use = (I, K)" by (cases Use)
  show ?case
    unfolding fold_Cons o_apply Cons.IH
    by (auto simp: Use LiveOutBlockState_Yes)
qed

lemma seed_fold_HasAnyEscape:
  "HasAnyEscape
     (fold (\<lambda>Use EP.
             if snd Use = Escape
             then EP\<lparr>HasAnyEscape := True,
                     PerBlockInfo := (PerBlockInfo EP)(getParent (fst Use) \<mapsto>
                        (lookupOrDefault (PerBlockInfo EP) (getParent (fst Use)))
                          \<lparr>EscapeInfo := Yes\<rparr>)\<rparr>
             else EP) Us EP0)
   = (HasAnyEscape EP0 \<or> (\<exists>I. (I, Escape) \<in> set Us))"
proof (induction Us arbitrary: EP0)
  case Nil
  then show ?case by simp
next
  case (Cons Use Us)
  obtain I K where Use: "Use = (I, K)" by (cases Use)
  show ?case
    unfolding fold_Cons o_apply Cons.IH
    by (auto simp: Use)
qed

lemma ctor_PerBlockInfo:
  "PerBlockInfo (ElementPromotion_ctor ABI Us PBI) BB
   = (if \<exists>I. (I, Escape) \<in> set Us \<and> getParent I = BB
      then Some \<lparr>EscapeInfo = Yes\<rparr> else None)"
  by (simp add: ElementPromotion_ctor_def seed_fold_PerBlockInfo)

lemma ctor_HasAnyEscape:
  "HasAnyEscape (ElementPromotion_ctor ABI Us PBI) = (\<exists>I. (I, Escape) \<in> set Us)"
  by (simp add: ElementPromotion_ctor_def seed_fold_HasAnyEscape)

text \<open>
  C3. The claim: a block is marked tainted if and only if it holds an Escape use of the
  element or is reachable from a block that does. With an Escape use in block 0 and the
  edge from block 0 to block 1, block 1 is reachable from the escape and is not marked:
  the constructor marks the blocks of the Escape uses and follows no edge.
\<close>

theorem seed_no_propagation_counterexample:
  "spec_Tainted [(0, 1)] [(escapeB0, Escape)] 1
   \<and> \<not> isTainted (PerBlockInfo (ElementPromotion_ctor boxA [(escapeB0, Escape)] Map.empty)) 1"
proof -
  have "spec_reachable [(0, 1)] 0 1"
    by (simp add: spec_reachable_def)
  then have "spec_Tainted [(0, 1)] [(escapeB0, Escape)] 1"
    by (simp add: spec_Tainted_def escapeB0_def inst_def)
  moreover have "\<not> isTainted (PerBlockInfo (ElementPromotion_ctor boxA [(escapeB0, Escape)] Map.empty)) 1"
    by (simp add: isTainted_def lookupOrDefault_def ctor_PerBlockInfo escapeB0_def inst_def)
  ultimately show ?thesis by simp
qed

text \<open>
  C3, as amended: after the constructor has run, a block is marked tainted if and only if
  it holds an Escape use of the element; every other block has no entry in the map,
  whatever the map held before; and \<open>HasAnyEscape\<close> tells whether there is an Escape use.
\<close>

theorem seed_exact:
  "(isTainted (PerBlockInfo (ElementPromotion_ctor ABI Us PBI)) BB
      \<longleftrightarrow> (\<exists>I. (I, Escape) \<in> set Us \<and> getParent I = BB))
   \<and> (PerBlockInfo (ElementPromotion_ctor ABI Us PBI) BB = None
      \<longleftrightarrow> \<not> (\<exists>I. (I, Escape) \<in> set Us \<and> getParent I = BB))
   \<and> (HasAnyEscape (ElementPromotion_ctor ABI Us PBI) \<longleftrightarrow> (\<exists>I. (I, Escape) \<in> set Us))"
  by (simp add: isTainted_def lookupOrDefault_def ctor_PerBlockInfo ctor_HasAnyEscape)

theorem seed_exact_witness:
  "isTainted (PerBlockInfo (ElementPromotion_ctor boxA
       [(loadA, Load), (escapeB0, Escape), (storeA, Store)]
       [1 \<mapsto> \<lparr>EscapeInfo = Yes\<rparr>])) 0
   \<and> PerBlockInfo (ElementPromotion_ctor boxA
       [(loadA, Load), (escapeB0, Escape), (storeA, Store)]
       [1 \<mapsto> \<lparr>EscapeInfo = Yes\<rparr>]) 1 = None
   \<and> HasAnyEscape (ElementPromotion_ctor boxA
       [(loadA, Load), (escapeB0, Escape), (storeA, Store)]
       [1 \<mapsto> \<lparr>EscapeInfo = Yes\<rparr>])"
  using seed_exact [of boxA "[(loadA, Load), (escapeB0, Escape), (storeA, Store)]"
      "[1 \<mapsto> \<lparr>EscapeInfo = Yes\<rparr>]" 0]
    seed_exact [of boxA "[(loadA, Load), (escapeB0, Escape), (storeA, Store)]"
      "[1 \<mapsto> \<lparr>EscapeInfo = Yes\<rparr>]" 1]
  by (auto simp: escapeB0_def inst_def)

section \<open>The driver\<close>

subsection \<open>optimizeAllocBox leaves the module as it is\<close>

lemma doIt_id: "doIt EP M = M"
proof -
  have "fold (\<lambda>Use M. case snd Use of Load \<Rightarrow> M | Store \<Rightarrow> M | ByrefUse \<Rightarrow> M | Escape \<Rightarrow> M)
          Us M = M" for Us :: ElementUses
    by (induction Us) (simp_all split: UseKind.splits)
  then show ?thesis by (simp add: doIt_def)
qed

lemma elements_fold_id:
  "snd (fold (\<lambda>Elt (PBI, M'). let EP = ElementPromotion_ctor ABI Elt PBI
                               in (PerBlockInfo EP, doIt EP M')) Us (P, M)) = M"
  by (induction Us arbitrary: P) (simp_all add: doIt_id Let_def)

lemma optimizeAllocBox_id: "optimizeAllocBox ABI M = Inr M"
  by (simp only: optimizeAllocBox_def collect_box sum.case elements_fold_id)

lemma scanBlock_unfold:
  "scanBlock f b i M =
     (if i < length (blockAt M f b) then
        (if erasable M (blockAt M f b ! i) then scanBlock f b i (eraseFromParent f b i M)
         else scanBlock f b (i + 1) M)
      else Inr M)"
  by (subst scanBlock.simps) (simp add: optimizeAllocBox_id erasable_def)

subsection \<open>Use lists do not change when unused boxes go\<close>

lemma use_empty_iff:
  "use_empty M I \<longleftrightarrow> \<not> (\<exists>F\<in>set (Functions M). \<exists>B\<in>set F. \<exists>J\<in>set B. usedBy I J)"
  by (simp add: use_empty_def list_ex_iff)

lemma wellFormed_iff:
  "wellFormed M \<longleftrightarrow>
     (\<forall>F\<in>set (Functions M). \<forall>B\<in>set F. \<forall>J\<in>set B. isa AllocBoxInst J \<longrightarrow> getAllOperands J = [])"
  by (simp add: wellFormed_def list_all_iff)

lemma usedBy_operands: "usedBy I J \<Longrightarrow> getAllOperands J \<noteq> []"
  by (auto simp: usedBy_def)

lemma thinned_refl: "thinned B B"
  by (simp add: thinned_def)

lemma thinned_users:
  "thinned B' B \<Longrightarrow> (\<exists>J\<in>set B'. usedBy I J) = (\<exists>J\<in>set B. usedBy I J)"
  unfolding thinned_def using usedBy_operands by blast

lemma thinned_function_users:
  "list_all2 thinned F' F \<Longrightarrow>
   (\<exists>B\<in>set F'. \<exists>J\<in>set B. usedBy I J) = (\<exists>B\<in>set F. \<exists>J\<in>set B. usedBy I J)"
  by (induction rule: list_all2_induct) (simp_all add: thinned_users)

lemma thinned_module_users:
  "list_all2 (list_all2 thinned) X X' \<Longrightarrow>
   (\<exists>F\<in>set X. \<exists>B\<in>set F. \<exists>J\<in>set B. usedBy I J)
     = (\<exists>F\<in>set X'. \<exists>B\<in>set F. \<exists>J\<in>set B. usedBy I J)"
  by (induction rule: list_all2_induct) (simp_all add: thinned_function_users)

lemma thinned_function_all:
  "list_all2 thinned F' F \<Longrightarrow> \<forall>B\<in>set F. \<forall>J\<in>set B. P J \<Longrightarrow> \<forall>B\<in>set F'. \<forall>J\<in>set B. P J"
  by (induction rule: list_all2_induct) (auto simp: thinned_def)

lemma thinned_module_all:
  "list_all2 (list_all2 thinned) X X' \<Longrightarrow> \<forall>F\<in>set X'. \<forall>B\<in>set F. \<forall>J\<in>set B. P J
     \<Longrightarrow> \<forall>F\<in>set X. \<forall>B\<in>set F. \<forall>J\<in>set B. P J"
proof (induction rule: list_all2_induct)
  case Nil
  then show ?case by simp
next
  case (Cons F' X F X')
  then show ?case using thinned_function_all [of F' F P] by simp
qed

lemma thinned_use_empty:
  "list_all2 (list_all2 thinned) X (Functions M) \<Longrightarrow>
   use_empty (M\<lparr>Functions := X\<rparr>) I = use_empty M I"
  using thinned_module_users [of X "Functions M" I] by (simp add: use_empty_iff)

lemma thinned_wellFormed:
  "list_all2 (list_all2 thinned) X (Functions M) \<Longrightarrow> wellFormed M \<Longrightarrow>
   wellFormed (M\<lparr>Functions := X\<rparr>)"
  using thinned_module_all [of X "Functions M" "\<lambda>J. isa AllocBoxInst J \<longrightarrow> getAllOperands J = []"]
  by (simp add: wellFormed_iff)

lemma thinned_prune:
  "list_all2 (list_all2 thinned) X (Functions M) \<Longrightarrow> prune (M\<lparr>Functions := X\<rparr>) = prune M"
  by (simp add: prune_def erasable_def thinned_use_empty)

subsection \<open>Replacing one block\<close>

lemma Functions_setBlock:
  "Functions (setBlock f b B M) = (Functions M)[f := (Functions M ! f)[b := B]]"
  by (simp add: setBlock_def)

lemma setBlock_nth:
  "f < length (Functions M) \<Longrightarrow> b < length (Functions M ! f) \<Longrightarrow>
   Functions (setBlock f b B M) ! f ! b = B"
  by (simp add: setBlock_def)

lemma setBlock_lengths:
  "length (Functions (setBlock f b B M)) = length (Functions M)"
  "f < length (Functions M) \<Longrightarrow> length (Functions (setBlock f b B M) ! f) = length (Functions M ! f)"
  by (simp_all add: setBlock_def)

lemma setBlock_setBlock:
  "f < length (Functions M) \<Longrightarrow> setBlock f b B2 (setBlock f b B1 M) = setBlock f b B2 M"
  by (simp add: setBlock_def)

lemma setBlock_same:
  "setBlock f b (Functions M ! f ! b) M = M"
  by (simp add: setBlock_def)

lemma eraseFromParent_setBlock:
  "eraseFromParent f b i M
     = setBlock f b (take i (Functions M ! f ! b) @ drop (Suc i) (Functions M ! f ! b)) M"
  by (simp add: eraseFromParent_def setBlock_def)

lemma list_all2_update_left:
  "list_all2 P xs xs \<Longrightarrow> P x (xs ! i) \<Longrightarrow> list_all2 P (xs[i := x]) xs"
  using list_all2_update_cong [of P xs xs x "xs ! i" i] by simp

lemma thinned_setBlock:
  assumes "thinned B (Functions M ! f ! b)"
  shows "list_all2 (list_all2 thinned) (Functions (setBlock f b B M)) (Functions M)"
proof -
  have base: "list_all2 thinned F F" for F
    by (simp add: list_all2_same thinned_refl)
  have inner: "list_all2 thinned ((Functions M ! f)[b := B]) (Functions M ! f)"
    by (rule list_all2_update_left [OF base assms])
  have outer: "list_all2 (list_all2 thinned) (Functions M) (Functions M)"
    using base by (simp add: list_all2_same)
  show ?thesis
    unfolding Functions_setBlock by (rule list_all2_update_left [OF outer inner])
qed

lemma thinned_erase:
  assumes "i < length B" and "getAllOperands (B ! i) = []"
  shows "thinned (take i B @ drop (Suc i) B) B"
proof -
  have B: "B = take i B @ B ! i # drop (Suc i) B"
    using assms(1) by (simp add: id_take_nth_drop [symmetric])
  have "set B = set (take i B) \<union> {B ! i} \<union> set (drop (Suc i) B)"
    by (subst B) simp
  then show ?thesis
    using assms(2) by (auto simp: thinned_def)
qed

lemma thinned_prune_block:
  assumes "\<forall>J\<in>set B. isa AllocBoxInst J \<longrightarrow> getAllOperands J = []"
  shows "thinned (prune M B) B"
  using assms by (auto simp: thinned_def prune_def erasable_def)

subsection \<open>The loop over one block\<close>

lemma wellFormed_block:
  "wellFormed M \<Longrightarrow> f < length (Functions M) \<Longrightarrow> b < length (Functions M ! f) \<Longrightarrow>
   \<forall>J\<in>set (Functions M ! f ! b). isa AllocBoxInst J \<longrightarrow> getAllOperands J = []"
  by (simp add: wellFormed_iff) (meson nth_mem)

lemma scanBlock_prune:
  "wellFormed M \<Longrightarrow> f < length (Functions M) \<Longrightarrow> b < length (Functions M ! f) \<Longrightarrow>
   i \<le> length (Functions M ! f ! b) \<Longrightarrow>
   scanBlock f b i M
     = Inr (setBlock f b (take i (Functions M ! f ! b) @ prune M (drop i (Functions M ! f ! b))) M)"
proof (induction "length (Functions M ! f ! b) - i" arbitrary: i M rule: less_induct)
  case less
  let ?B = "Functions M ! f ! b"
  have blk: "blockAt M f b = ?B"
    using less.prems by (simp add: blockAt_def)
  show ?case
  proof (cases "i < length ?B")
    case False
    then have "i = length ?B" using less.prems(4) by simp
    then show ?thesis
      by (subst scanBlock_unfold) (simp add: blk prune_def setBlock_same)
  next
    case True
    have dropi: "drop i ?B = ?B ! i # drop (Suc i) ?B"
      using True by (simp add: Cons_nth_drop_Suc)
    show ?thesis
    proof (cases "erasable M (?B ! i)")
      case False
      have "scanBlock f b (Suc i) M
          = Inr (setBlock f b (take (Suc i) ?B @ prune M (drop (Suc i) ?B)) M)"
        using True less.prems by (intro less.hyps) simp_all
      then show ?thesis
        using True False
        by (subst scanBlock_unfold)
           (simp add: blk dropi prune_def take_Suc_conv_app_nth)
    next
      case erase: True
      let ?B1 = "take i ?B @ drop (Suc i) ?B"
      let ?M1 = "setBlock f b ?B1 M"
      have "isa AllocBoxInst (?B ! i)" using erase by (simp add: erasable_def)
      then have noops: "getAllOperands (?B ! i) = []"
        using wellFormed_block [OF less.prems(1-3)] True by simp
      have th: "list_all2 (list_all2 thinned) (Functions ?M1) (Functions M)"
        by (rule thinned_setBlock) (rule thinned_erase [OF True noops])
      have M1: "?M1 = M\<lparr>Functions := Functions ?M1\<rparr>"
        by (simp add: setBlock_def)
      have wf1: "wellFormed ?M1"
        using thinned_wellFormed [OF th less.prems(1)] M1 by simp
      have pr1: "prune ?M1 = prune M"
        using thinned_prune [OF th] M1 by simp
      have B1: "Functions ?M1 ! f ! b = ?B1"
        using less.prems by (simp add: setBlock_nth)
      have len1: "length ?B1 = length ?B - 1"
        using True by simp
      have "scanBlock f b i ?M1
          = Inr (setBlock f b (take i (Functions ?M1 ! f ! b)
                                @ prune ?M1 (drop i (Functions ?M1 ! f ! b))) ?M1)"
        using True less.prems wf1 B1 len1
        by (intro less.hyps) (simp_all add: setBlock_lengths)
      then have "scanBlock f b i ?M1 = Inr (setBlock f b (take i ?B @ prune M (drop (Suc i) ?B)) M)"
        using True less.prems(2) by (simp add: B1 pr1 setBlock_setBlock)
      then show ?thesis
        using True erase
        by (subst scanBlock_unfold)
           (simp add: blk dropi prune_def eraseFromParent_setBlock)
    qed
  qed
qed

subsection \<open>The loops over the blocks and the functions\<close>

lemma forEach_append:
  "forEach (ks @ ls) body M =
     (case forEach ks body M of Inl err \<Rightarrow> Inl err | Inr M' \<Rightarrow> forEach ls body M')"
  by (induction ks arbitrary: M) (simp_all split: sum.splits)

lemma map_prefix_update:
  "n < length xs \<Longrightarrow>
   (map g (take n xs) @ drop n xs)[n := g (xs ! n)] = map g (take (Suc n) xs) @ drop (Suc n) xs"
  by (simp add: list_update_append take_Suc_conv_app_nth Cons_nth_drop_Suc [symmetric])

lemma map_prefix_nth:
  "n < length xs \<Longrightarrow> (map g (take n xs) @ drop n xs) ! n = xs ! n"
  by (simp add: nth_append)

lemma thinned_prefix:
  assumes "\<forall>B\<in>set F. \<forall>J\<in>set B. isa AllocBoxInst J \<longrightarrow> getAllOperands J = []"
  shows "list_all2 thinned (map (prune M) (take n F) @ drop n F) F"
proof -
  have "list_all2 thinned (map (prune M) (take n F)) (take n F)"
    using assms by (auto simp: list_all2_map1 list_all2_same thinned_prune_block dest: in_set_takeD)
  moreover have "list_all2 thinned (drop n F) (drop n F)"
    by (simp add: list_all2_same thinned_refl)
  ultimately have "list_all2 thinned (map (prune M) (take n F) @ drop n F) (take n F @ drop n F)"
    by (rule list_all2_appendI)
  then show ?thesis by simp
qed

lemma thinned_function_update:
  assumes "list_all2 thinned F' (X ! f)"
  shows "list_all2 (list_all2 thinned) (X[f := F']) X"
proof -
  have "list_all2 (list_all2 thinned) X X"
    by (simp add: list_all2_same thinned_refl)
  then show ?thesis using assms by (rule list_all2_update_left)
qed

lemma scanFunction_prefix:
  assumes wf: "wellFormed M" and f: "f < length (Functions M)"
  shows "n \<le> length (Functions M ! f) \<Longrightarrow>
     forEach [0..<n] (\<lambda>b. scanBlock f b 0) M
       = Inr (M\<lparr>Functions := (Functions M)[f :=
                map (prune M) (take n (Functions M ! f)) @ drop n (Functions M ! f)]\<rparr>)"
proof (induction n)
  case 0
  then show ?case by simp
next
  case (Suc n)
  let ?F = "Functions M ! f"
  let ?Fn = "map (prune M) (take n ?F) @ drop n ?F"
  let ?Mn = "M\<lparr>Functions := (Functions M)[f := ?Fn]\<rparr>"
  have n: "n < length ?F" using Suc.prems by simp
  have wfF: "\<forall>B\<in>set ?F. \<forall>J\<in>set B. isa AllocBoxInst J \<longrightarrow> getAllOperands J = []"
  proof -
    have "Functions M ! f \<in> set (Functions M)" using f by (rule nth_mem)
    then show ?thesis using wf unfolding wellFormed_iff by blast
  qed
  have th: "list_all2 (list_all2 thinned) (Functions ?Mn) (Functions M)"
    using thinned_function_update [OF thinned_prefix [OF wfF]] by simp
  have wfn: "wellFormed ?Mn"
    using thinned_wellFormed [OF _ wf, of "Functions ?Mn"] th by simp
  have prn: "prune ?Mn = prune M"
    using thinned_prune [of "Functions ?Mn" M] th by simp
  have blk: "Functions ?Mn ! f ! n = ?F ! n"
    using f n by (simp add: map_prefix_nth)
  have "scanBlock f n 0 ?Mn
      = Inr (setBlock f n (take 0 (Functions ?Mn ! f ! n)
                            @ prune ?Mn (drop 0 (Functions ?Mn ! f ! n))) ?Mn)"
    using wfn f n by (intro scanBlock_prune) simp_all
  then have "scanBlock f n 0 ?Mn
      = Inr (M\<lparr>Functions := (Functions M)[f :=
               map (prune M) (take (Suc n) ?F) @ drop (Suc n) ?F]\<rparr>)"
    using f n by (simp add: prn setBlock_def map_prefix_nth map_prefix_update)
  moreover have "forEach [0..<n] (\<lambda>b. scanBlock f b 0) M = Inr ?Mn"
    using Suc by simp
  ultimately show ?case
    by (simp add: forEach_append)
qed

lemma scanFunction_prune:
  assumes "wellFormed M" and "f < length (Functions M)"
  shows "forEach [0..<length (Functions M ! f)] (\<lambda>b. scanBlock f b 0) M
           = Inr (M\<lparr>Functions := (Functions M)[f := map (prune M) (Functions M ! f)]\<rparr>)"
  using scanFunction_prefix [OF assms, of "length (Functions M ! f)"] by simp

lemma thinned_module_prefix:
  assumes "wellFormed M"
  shows "list_all2 (list_all2 thinned)
           (map (map (prune M)) (take n (Functions M)) @ drop n (Functions M)) (Functions M)"
proof -
  have "list_all2 thinned (map (prune M) F) F" if "F \<in> set (Functions M)" for F
    using thinned_prefix [of F M "length F"] assms that by (simp add: wellFormed_iff)
  then have "list_all2 (list_all2 thinned) (map (map (prune M)) (take n (Functions M)))
               (take n (Functions M))"
    by (auto simp: list_all2_map1 list_all2_same dest: in_set_takeD)
  moreover have "list_all2 (list_all2 thinned) (drop n (Functions M)) (drop n (Functions M))"
    by (simp add: list_all2_same thinned_refl)
  ultimately have "list_all2 (list_all2 thinned)
      (map (map (prune M)) (take n (Functions M)) @ drop n (Functions M))
      (take n (Functions M) @ drop n (Functions M))"
    by (rule list_all2_appendI)
  then show ?thesis by simp
qed

lemma scanModule_prefix:
  assumes wf: "wellFormed M"
  shows "n \<le> length (Functions M) \<Longrightarrow>
     forEach [0..<n]
       (\<lambda>f M1. forEach [0..<length (Functions M1 ! f)] (\<lambda>b M2. scanBlock f b 0 M2) M1) M
       = Inr (M\<lparr>Functions := map (map (prune M)) (take n (Functions M)) @ drop n (Functions M)\<rparr>)"
proof (induction n)
  case 0
  then show ?case by simp
next
  case (Suc n)
  let ?X = "Functions M"
  let ?Xn = "map (map (prune M)) (take n ?X) @ drop n ?X"
  let ?Mn = "M\<lparr>Functions := ?Xn\<rparr>"
  have n: "n < length ?X" using Suc.prems by simp
  have th: "list_all2 (list_all2 thinned) ?Xn (Functions M)"
    by (rule thinned_module_prefix [OF wf])
  have wfn: "wellFormed ?Mn"
    by (rule thinned_wellFormed [OF th wf])
  have prn: "prune ?Mn = prune M"
    by (rule thinned_prune [OF th])
  have fn: "Functions ?Mn ! n = ?X ! n"
    using n by (simp add: map_prefix_nth)
  have "forEach [0..<length (Functions ?Mn ! n)] (\<lambda>b. scanBlock n b 0) ?Mn
      = Inr (?Mn\<lparr>Functions := (Functions ?Mn)[n := map (prune ?Mn) (Functions ?Mn ! n)]\<rparr>)"
    using wfn n by (intro scanFunction_prune) simp_all
  then have "forEach [0..<length (Functions ?Mn ! n)] (\<lambda>b. scanBlock n b 0) ?Mn
      = Inr (M\<lparr>Functions := map (map (prune M)) (take (Suc n) ?X) @ drop (Suc n) ?X\<rparr>)"
    using n by (simp add: prn map_prefix_nth map_prefix_update)
  moreover have "forEach [0..<n]
       (\<lambda>f M1. forEach [0..<length (Functions M1 ! f)] (\<lambda>b M2. scanBlock f b 0 M2) M1) M
       = Inr ?Mn"
    using Suc by simp
  ultimately show ?case
    by (simp add: forEach_append)
qed

text \<open>The pass takes the unused boxes out of every block, and does nothing else.\<close>

lemma performSILMemoryPromotion_prune:
  "wellFormed M \<Longrightarrow>
   performSILMemoryPromotion M = Inr (M\<lparr>Functions := map (map (prune M)) (Functions M)\<rparr>)"
  using scanModule_prefix [of M "length (Functions M)"]
  by (simp add: performSILMemoryPromotion_def)

lemma pruned_module:
  assumes "wellFormed M"
  shows "wellFormed (M\<lparr>Functions := map (map (prune M)) (Functions M)\<rparr>)"
    and "prune (M\<lparr>Functions := map (map (prune M)) (Functions M)\<rparr>) = prune M"
    and "use_empty (M\<lparr>Functions := map (map (prune M)) (Functions M)\<rparr>) I = use_empty M I"
proof -
  have th: "list_all2 (list_all2 thinned) (map (map (prune M)) (Functions M)) (Functions M)"
    using thinned_module_prefix [OF assms, of "length (Functions M)"] by simp
  show "wellFormed (M\<lparr>Functions := map (map (prune M)) (Functions M)\<rparr>)"
    by (rule thinned_wellFormed [OF th assms])
  show "prune (M\<lparr>Functions := map (map (prune M)) (Functions M)\<rparr>) = prune M"
    by (rule thinned_prune [OF th])
  show "use_empty (M\<lparr>Functions := map (map (prune M)) (Functions M)\<rparr>) I = use_empty M I"
    by (rule thinned_use_empty [OF th])
qed

subsection \<open>Pruning twice\<close>

lemma prune_idem: "prune M (prune M B) = prune M B"
  by (simp add: prune_def)

subsection \<open>The example modules\<close>

lemma example_wellFormed:
  "wellFormed storeLoadModule" "wellFormed loadOnlyModule" "wellFormed deadBoxModule"
  by (simp_all add: wellFormed_def isa_def storeLoadModule_def loadOnlyModule_def
      deadBoxModule_def emptyModule_def boxA_def boxD_def inst_def)

lemma example_erasable:
  "\<not> erasable storeLoadModule boxA" "\<not> erasable loadOnlyModule boxA"
  "\<not> erasable deadBoxModule boxA" "erasable deadBoxModule boxD"
  "\<not> erasable M storeA" "\<not> erasable M loadA"
  by (simp_all add: erasable_def isa_def use_empty_def usedBy_def storeLoadModule_def
      loadOnlyModule_def deadBoxModule_def emptyModule_def boxA_def boxD_def storeA_def
      loadA_def inst_def)

lemma example_Functions:
  "Functions storeLoadModule = [[[boxA, storeA, loadA]]]"
  "Functions loadOnlyModule = [[[boxA, loadA]]]"
  "Functions deadBoxModule = [[[boxD, boxA, storeA, loadA]]]"
  by (simp_all add: storeLoadModule_def loadOnlyModule_def deadBoxModule_def)

lemma storeLoadModule_pass: "performSILMemoryPromotion storeLoadModule = Inr storeLoadModule"
proof -
  have "map (map (prune storeLoadModule)) (Functions storeLoadModule) = Functions storeLoadModule"
    unfolding example_Functions by (simp add: prune_def example_erasable)
  then show ?thesis
    by (simp add: performSILMemoryPromotion_prune example_wellFormed)
qed

lemma loadOnlyModule_pass: "performSILMemoryPromotion loadOnlyModule = Inr loadOnlyModule"
proof -
  have "map (map (prune loadOnlyModule)) (Functions loadOnlyModule) = Functions loadOnlyModule"
    unfolding example_Functions by (simp add: prune_def example_erasable)
  then show ?thesis
    by (simp add: performSILMemoryPromotion_prune example_wellFormed)
qed

lemma deadBoxModule_pass: "performSILMemoryPromotion deadBoxModule = Inr storeLoadModule"
proof -
  have "map (map (prune deadBoxModule)) (Functions deadBoxModule) = [[[boxA, storeA, loadA]]]"
    unfolding example_Functions by (simp add: prune_def example_erasable)
  then have "deadBoxModule\<lparr>Functions := map (map (prune deadBoxModule)) (Functions deadBoxModule)\<rparr>
      = storeLoadModule"
    by (simp add: deadBoxModule_def storeLoadModule_def)
  then show ?thesis
    by (simp add: performSILMemoryPromotion_prune example_wellFormed)
qed

lemma storeLoadModule_uses:
  "getUses storeLoadModule (Addr boxA, 1)
     = [\<lparr>getUser = storeA, getOperandNumber = 1\<rparr>, \<lparr>getUser = loadA, getOperandNumber = 0\<rparr>]"
  by (simp add: getUses_def operandsOf_def storeLoadModule_def boxA_def storeA_def loadA_def
      inst_def)

lemma loadOnlyModule_uses:
  "getUses loadOnlyModule (Addr boxA, 1) = [\<lparr>getUser = loadA, getOperandNumber = 0\<rparr>]"
  by (simp add: getUses_def operandsOf_def loadOnlyModule_def boxA_def loadA_def
      inst_def)

lemma boxA_count:
  "unat (getNumElements M (getSwiftRValueType (getElementType boxA))) = 1"
  by (simp add: boxA_def inst_def IntTy_def)

lemma storeLoadModule_collect:
  "collectAllocationUses storeLoadModule (getAddressType (getElementType boxA))
     (getUses storeLoadModule (Addr boxA, 1)) (replicate 1 []) 0
   = Inr [[(storeA, Store), (loadA, Load)]]"
  using collect_box [of storeLoadModule boxA "getUses storeLoadModule (Addr boxA, 1)"]
  unfolding storeLoadModule_uses boxA_count
  by (simp add: spec_entries_def spec_UseKind_def isBookkeeping_def)

lemma loadOnlyModule_collect:
  "collectAllocationUses loadOnlyModule (getAddressType (getElementType boxA))
     (getUses loadOnlyModule (Addr boxA, 1)) (replicate 1 []) 0
   = Inr [[(loadA, Load)]]"
  using collect_box [of loadOnlyModule boxA "getUses loadOnlyModule (Addr boxA, 1)"]
  unfolding loadOnlyModule_uses boxA_count
  by (simp add: spec_entries_def spec_UseKind_def isBookkeeping_def)

subsection \<open>The claims about the pass\<close>

text \<open>
  C10. On a well-formed module the pass returns the module in which every block has lost
  its box allocations without a use, and nothing else has changed: the functions and the
  blocks are the same in number, every other instruction (every load, store, call and
  other use, and every box allocation that has a use) stands unchanged in its place and
  order, and so do the queries and the diagnostics of the module. Whether a box has a use
  does not change during the pass, so that the boxes erased are those without a use at
  the time of their check.
\<close>

theorem pass_frame:
  assumes "wellFormed M"
  shows "\<exists>M'. performSILMemoryPromotion M = Inr M'
           \<and> M' = M\<lparr>Functions :=
                    map (map (filter (\<lambda>I. \<not> (isa AllocBoxInst I \<and> use_empty M I))))
                      (Functions M)\<rparr>
           \<and> (\<forall>I. use_empty M' I = use_empty M I)"
proof -
  have "prune M = filter (\<lambda>I. \<not> (isa AllocBoxInst I \<and> use_empty M I))"
    by (simp add: prune_def erasable_def)
  then show ?thesis
    using performSILMemoryPromotion_prune [OF assms] pruned_module(3) [OF assms] by simp
qed

theorem pass_frame_witness:
  "wellFormed deadBoxModule
   \<and> performSILMemoryPromotion deadBoxModule = Inr storeLoadModule
   \<and> Functions deadBoxModule = [[[boxD, boxA, storeA, loadA]]]
   \<and> Functions storeLoadModule = [[[boxA, storeA, loadA]]]
   \<and> Functions storeLoadModule
       = map (map (filter (\<lambda>I. \<not> (isa AllocBoxInst I \<and> use_empty deadBoxModule I))))
           (Functions deadBoxModule)
   \<and> use_empty storeLoadModule boxD = use_empty deadBoxModule boxD"
proof -
  obtain M' where M':
    "performSILMemoryPromotion deadBoxModule = Inr M'"
    "M' = deadBoxModule\<lparr>Functions :=
            map (map (filter (\<lambda>I. \<not> (isa AllocBoxInst I \<and> use_empty deadBoxModule I))))
              (Functions deadBoxModule)\<rparr>"
    "\<forall>I. use_empty M' I = use_empty deadBoxModule I"
    using pass_frame [OF example_wellFormed(3)] by blast
  have eq: "M' = storeLoadModule"
    using M'(1) by (simp add: deadBoxModule_pass)
  have "Functions storeLoadModule
      = map (map (filter (\<lambda>I. \<not> (isa AllocBoxInst I \<and> use_empty deadBoxModule I))))
          (Functions deadBoxModule)"
    using M'(2) unfolding eq by (metis SILModule.select_convs(1) SILModule.surjective
        SILModule.update_convs(1))
  moreover have "use_empty storeLoadModule boxD = use_empty deadBoxModule boxD"
    using M'(3) unfolding eq by simp
  ultimately show ?thesis
    by (simp add: example_wellFormed deadBoxModule_pass example_Functions)
qed

text \<open>
  C9. On a well-formed module the pass returns, and run again on its result it returns
  that result: the second run rewrites nothing and erases nothing.
\<close>

theorem pass_idempotent:
  assumes "wellFormed M"
  shows "\<exists>M'. performSILMemoryPromotion M = Inr M' \<and> performSILMemoryPromotion M' = Inr M'"
proof -
  let ?M' = "M\<lparr>Functions := map (map (prune M)) (Functions M)\<rparr>"
  have first: "performSILMemoryPromotion M = Inr ?M'"
    by (rule performSILMemoryPromotion_prune [OF assms])
  have "performSILMemoryPromotion ?M' = Inr (?M'\<lparr>Functions := map (map (prune ?M')) (Functions ?M')\<rparr>)"
    by (rule performSILMemoryPromotion_prune [OF pruned_module(1) [OF assms]])
  also have "?M'\<lparr>Functions := map (map (prune ?M')) (Functions ?M')\<rparr> = ?M'"
    by (simp add: pruned_module(2) [OF assms] prune_idem)
  finally show ?thesis using first by blast
qed

theorem pass_idempotent_witness:
  "wellFormed deadBoxModule
   \<and> performSILMemoryPromotion deadBoxModule = Inr storeLoadModule
   \<and> performSILMemoryPromotion storeLoadModule = Inr storeLoadModule"
proof -
  obtain M' where M':
    "performSILMemoryPromotion deadBoxModule = Inr M'" "performSILMemoryPromotion M' = Inr M'"
    using pass_idempotent [OF example_wellFormed(3)] by blast
  have "M' = storeLoadModule"
    using M'(1) by (simp add: deadBoxModule_pass)
  then show ?thesis
    using M' by (simp add: example_wellFormed)
qed

text \<open>
  C1. The claim: where an element has no Escape and no ByrefUse and every load is
  dominated by one reaching store, the pass replaces each load by the stored value,
  deletes it, and leaves the element without a Load use. The source says as much of
  itself (\<open>Promote alloc_box uses into SSA registers\<close>; \<open>promoting loads\<close> in \<open>doIt\<close>),
  and the switch of \<open>doIt\<close> that is to do it is empty. In \<open>storeLoadModule\<close> the one
  function has one block, in which the box is followed by a store to its address and then
  a load from it: the uses of the element are that Store and that Load. The code returns
  the module as it was: the load is still the third instruction of the block, and is
  still a Load use of the element.
\<close>

theorem storeLoadModule_not_promoted:
  "Functions storeLoadModule = [[[boxA, storeA, loadA]]]
   \<and> collectAllocationUses storeLoadModule (getAddressType (getElementType boxA))
        (getUses storeLoadModule (Addr boxA, 1)) (replicate 1 []) 0
      = Inr [[(storeA, Store), (loadA, Load)]]
   \<and> performSILMemoryPromotion storeLoadModule = Inr storeLoadModule"
  by (simp only: example_Functions storeLoadModule_collect storeLoadModule_pass)

text \<open>
  C2. The claim: for a load that is reached from the entry without a store before it,
  the pass reports one definite-initialization violation for that load, and neither
  promotes nor deletes it. The source says of itself that it performs that analysis
  (\<open>perform definitive initialization analysis\<close>; \<open>checking for definitive
  initialization\<close> in \<open>doIt\<close>), and the switch of \<open>doIt\<close> that is to do it is empty. In
  \<open>loadOnlyModule\<close> the block holds the box and a load from its address, and no store:
  the only use of the element is that Load. The code returns the module as it was, with
  no diagnostic in it.
\<close>

theorem loadOnlyModule_not_reported:
  "Functions loadOnlyModule = [[[boxA, loadA]]]
   \<and> collectAllocationUses loadOnlyModule (getAddressType (getElementType boxA))
        (getUses loadOnlyModule (Addr boxA, 1)) (replicate 1 []) 0
      = Inr [[(loadA, Load)]]
   \<and> performSILMemoryPromotion loadOnlyModule = Inr loadOnlyModule
   \<and> Diagnostics loadOnlyModule = []"
  by (simp only: example_Functions loadOnlyModule_collect loadOnlyModule_pass)
     (simp add: loadOnlyModule_def emptyModule_def)

end
